theory Spec2Isabelle
  imports Complex_Main
begin

section \<open>Strings\<close>

text \<open>
  Python strings are modelled as \<open>string\<close> (lists of 8-bit characters), one list
  element per character. The helpers below are the string operations the scripts use:
  decimal formatting of a non-negative integer (\<open>f"{n}"\<close>), zero padding
  (\<open>f"{n:06d}"\<close>), \<open>str.lower\<close> on the letters A to Z, and the substring test
  \<open>sub in s\<close>.
\<close>

definition digit_char :: "nat \<Rightarrow> char" where
  "digit_char d = ''0123456789'' ! d"

fun dec :: "nat \<Rightarrow> string" where
  "dec n = (if n < 10 then [digit_char n] else dec (n div 10) @ [digit_char (n mod 10)])"

declare dec.simps [simp del]

definition zero_pad :: "nat \<Rightarrow> string \<Rightarrow> string" where
  "zero_pad w s = replicate (w - length s) (CHR ''0'') @ s"

definition lower_char :: "char \<Rightarrow> char" where
  "lower_char c =
     (case map_of (zip ''ABCDEFGHIJKLMNOPQRSTUVWXYZ'' ''abcdefghijklmnopqrstuvwxyz'') c of
        Some l \<Rightarrow> l
      | None \<Rightarrow> c)"

definition lower :: "string \<Rightarrow> string" where
  "lower s = map lower_char s"

fun starts_with :: "'a list \<Rightarrow> 'a list \<Rightarrow> bool" where
  "starts_with [] s = True"
| "starts_with (x # xs) [] = False"
| "starts_with (x # xs) (y # ys) = (x = y \<and> starts_with xs ys)"

fun str_contains :: "'a list \<Rightarrow> 'a list \<Rightarrow> bool" where
  "str_contains sub [] = (sub = [])"
| "str_contains sub (y # ys) = (starts_with sub (y # ys) \<or> str_contains sub ys)"

section \<open>Text preparation\<close>

text \<open>
  \<open>adaptive_truncation\<close> of \<open>re_embed_codesearchnet_robust.py\<close>: the slice
  \<open>text[:k]\<close> is \<open>take k text\<close>; the second component is the token estimate.
\<close>

definition adaptive_truncation :: "string \<Rightarrow> string \<times> nat" where
  "adaptive_truncation text =
     (if length text > 50000 then (take 15000 text, 4000)
      else if length text > 30000 then (take 20000 text, 5000)
      else (take 30000 text, 8000))"

text \<open>
  A dataset record. \<open>item.get(k, '') or ''\<close> turns a missing or \<open>None\<close> field
  (and the empty string) into the empty string.
\<close>

record item =
  func_documentation_string :: "string option"
  func_code_string :: "string option"

definition or_empty :: "string option \<Rightarrow> string" where
  "or_empty f = (case f of None \<Rightarrow> [] | Some s \<Rightarrow> s)"

definition combined :: "item \<Rightarrow> string" where
  "combined it =
     or_empty (func_documentation_string it) @ [CHR 0x0A, CHR 0x0A] @ or_empty (func_code_string it)"

definition prepare_text :: "item \<Rightarrow> string" where
  "prepare_text it = fst (adaptive_truncation (combined it))"

text \<open>
  The same policy written inline in \<open>embed_dataset\<close> of
  \<open>re_embed_codesearchnet_full.py\<close>.
\<close>

definition prepare_text_full :: "item \<Rightarrow> string" where
  "prepare_text_full it =
     (if length (combined it) > 50000 then take 15000 (combined it)
      else if length (combined it) > 30000 then take 20000 (combined it)
      else take 30000 (combined it))"

section \<open>The checkpoint table\<close>

text \<open>
  The SQLite table \<open>batches\<close> is a list of rows with \<open>batch_id\<close> as primary key.
  The columns \<open>start_time\<close>, \<open>end_time\<close> (wall-clock stamps) and
  \<open>tokens_estimated\<close> (never written) take no part in any decision and are left
  out. \<open>retry_count\<close> has \<open>DEFAULT 0\<close>, \<open>error_message\<close> is nullable. The
  column \<open>batch_size\<close> is named \<open>batch_size_col\<close> here, to keep it apart from the
  loop variable of the same name.
\<close>

datatype status = Pending | In_progress | Completed | Failed

record batch_row =
  batch_id :: string
  lang_name :: string
  split_name :: string
  batch_index :: nat
  status :: status
  retry_count :: nat
  error_message :: "string option"
  batch_size_col :: nat

type_synonym table = "batch_row list"

text \<open>
  \<open>INSERT OR REPLACE\<close> deletes the row with the same primary key, if any, and inserts
  a new row; the columns the statement does not name take their defaults.
\<close>

definition mark_in_progress :: "string \<Rightarrow> string \<Rightarrow> string \<Rightarrow> nat \<Rightarrow> nat \<Rightarrow> table \<Rightarrow> table" where
  "mark_in_progress bid lang split idx bs tbl =
     filter (\<lambda>r. batch_id r \<noteq> bid) tbl @
     [\<lparr>batch_id = bid, lang_name = lang, split_name = split, batch_index = idx,
       status = In_progress, retry_count = 0, error_message = None, batch_size_col = bs\<rparr>]"

definition mark_completed :: "string \<Rightarrow> table \<Rightarrow> table" where
  "mark_completed bid tbl =
     map (\<lambda>r. if batch_id r = bid then r\<lparr>status := Completed\<rparr> else r) tbl"

definition mark_failed :: "string \<Rightarrow> string \<Rightarrow> table \<Rightarrow> table" where
  "mark_failed bid msg tbl =
     map (\<lambda>r. if batch_id r = bid then r\<lparr>status := Failed, error_message := Some msg\<rparr> else r) tbl"

definition increment_retry :: "string \<Rightarrow> table \<Rightarrow> table" where
  "increment_retry bid tbl =
     map (\<lambda>r. if batch_id r = bid then r\<lparr>retry_count := retry_count r + 1\<rparr> else r) tbl"

definition lookup_row :: "string \<Rightarrow> table \<Rightarrow> batch_row option" where
  "lookup_row bid tbl = find (\<lambda>r. batch_id r = bid) tbl"

definition get_batch_status :: "string \<Rightarrow> table \<Rightarrow> (status \<times> nat) option" where
  "get_batch_status bid tbl =
     (case lookup_row bid tbl of None \<Rightarrow> None | Some r \<Rightarrow> Some (status r, retry_count r))"

text \<open>The test \<open>status and status['status'] == 'completed'\<close> of the partition loop.\<close>

definition is_completed :: "string \<Rightarrow> table \<Rightarrow> bool" where
  "is_completed bid tbl =
     (case get_batch_status bid tbl of None \<Rightarrow> False | Some (st, rc) \<Rightarrow> st = Completed)"

definition get_completed_count :: "string \<Rightarrow> string \<Rightarrow> table \<Rightarrow> nat" where
  "get_completed_count lang split tbl =
     length (filter (\<lambda>r. lang_name r = lang \<and> split_name r = split \<and> status r = Completed) tbl)"

text \<open>
  The quantity the specification compares the result array with: the sum of the batch
  sizes of a partition's completed rows. The scripts never compute it.
\<close>

definition completed_size_total :: "string \<Rightarrow> string \<Rightarrow> table \<Rightarrow> nat" where
  "completed_size_total lang split tbl =
     sum_list (map batch_size_col
       (filter (\<lambda>r. lang_name r = lang \<and> split_name r = split \<and> status r = Completed) tbl))"

text \<open>The operations of \<open>CheckpointManager\<close> that write, as data.\<close>

datatype cp_op =
    Op_mark_in_progress string string string nat nat
  | Op_increment_retry string
  | Op_mark_completed string
  | Op_mark_failed string string

fun apply_op :: "cp_op \<Rightarrow> table \<Rightarrow> table" where
  "apply_op (Op_mark_in_progress bid lang split idx bs) tbl = mark_in_progress bid lang split idx bs tbl"
| "apply_op (Op_increment_retry bid) tbl = increment_retry bid tbl"
| "apply_op (Op_mark_completed bid) tbl = mark_completed bid tbl"
| "apply_op (Op_mark_failed bid msg) tbl = mark_failed bid msg tbl"

fun apply_ops :: "cp_op list \<Rightarrow> table \<Rightarrow> table" where
  "apply_ops [] tbl = tbl"
| "apply_ops (op # ops) tbl = apply_ops ops (apply_op op tbl)"

fun replaces_row :: "string \<Rightarrow> cp_op \<Rightarrow> bool" where
  "replaces_row bid (Op_mark_in_progress bid' lang split idx bs) = (bid' = bid)"
| "replaces_row bid other = False"

section \<open>The world of one partition run\<close>

text \<open>
  The embedding endpoint is an oracle: \<open>api k batch\<close> is the outcome of the \<open>k\<close>-th
  \<open>requests.post\<close> of the run when it carries \<open>batch\<close>. \<open>Response code text vs\<close> is
  a response with that status code and body text; for status 200, \<open>vs\<close> is the list
  \<open>[item['embedding'] for item in data['data']]\<close> of a body that parses. A body that
  does not parse shows as the exception it raises (\<open>RaisedValueError\<close> for a JSON
  decoding error, a subclass of \<open>ValueError\<close>; \<open>RaisedOther\<close> for anything else).
  Vectors are values of an arbitrary type \<open>'v\<close>; saving and loading the array is taken
  to return the same values.
\<close>

datatype 'v outcome =
    Response nat string "'v list"
  | Timeout
  | ConnectionError
  | RaisedValueError string
  | RaisedOther string

type_synonym 'v api = "nat \<Rightarrow> string list \<Rightarrow> 'v outcome"

datatype exn = ValueError string | Exception string

text \<open>
  The effects of a run, in the order the code performs them. Sleeps are in
  milliseconds (\<open>time.sleep(0.6)\<close> is \<open>Sleep 600\<close>).
\<close>

datatype 'v event =
    MarkInProgress string string string nat nat
  | MarkCompleted string
  | MarkFailed string string
  | IncrementRetry string
  | Sleep nat
  | Post "string list"
  | Save "'v list"

record 'v world =
  table :: table
  output_file :: "'v list option"
  calls :: nat
  trace :: "'v event list"

fun effect :: "'v event \<Rightarrow> 'v world \<Rightarrow> 'v world" where
  "effect (MarkInProgress bid lang split idx bs) w =
     w\<lparr>table := mark_in_progress bid lang split idx bs (table w)\<rparr>"
| "effect (MarkCompleted bid) w = w\<lparr>table := mark_completed bid (table w)\<rparr>"
| "effect (MarkFailed bid msg) w = w\<lparr>table := mark_failed bid msg (table w)\<rparr>"
| "effect (IncrementRetry bid) w = w\<lparr>table := increment_retry bid (table w)\<rparr>"
| "effect (Sleep ms) w = w"
| "effect (Post batch) w = w\<lparr>calls := calls w + 1\<rparr>"
| "effect (Save arr) w = w\<lparr>output_file := Some arr\<rparr>"

definition perform :: "'v event \<Rightarrow> 'v world \<Rightarrow> 'v world" where
  "perform ev w = (effect ev w)\<lparr>trace := trace w @ [ev]\<rparr>"

text \<open>What the durable stores hold after a prefix of the effects of a run.\<close>

fun replay :: "'v event list \<Rightarrow> 'v world \<Rightarrow> 'v world" where
  "replay [] w = w"
| "replay (ev # evs) w = replay evs (perform ev w)"

section \<open>One batch, with retries\<close>

text \<open>
  \<open>embed_batch_with_retry\<close>. \<open>attempt\<close> is the body of the loop
  \<open>for retry in range(max_retries)\<close>: it ends in \<open>continue\<close>, in
  \<open>return embeddings\<close> or in an exception that leaves the function (the handler
  \<open>except ValueError: raise\<close>). \<open>attempts\<close> runs the body over the retry indices;
  \<open>None\<close> means that the loop has run out.
\<close>

datatype 'v attempt_result = Continue | Return "'v list" | Raise exn

definition backoff_ms :: "nat \<Rightarrow> nat" where
  "backoff_ms retry = 10000 * 3 ^ (retry - 1)"

definition attempt :: "'v api \<Rightarrow> string list \<Rightarrow> string \<Rightarrow> nat \<Rightarrow> 'v world \<Rightarrow> 'v attempt_result \<times> 'v world" where
  "attempt api batch bid retry w =
     (let w1 = (if retry > 0
                then perform (Sleep (backoff_ms retry)) (perform (IncrementRetry bid) w)
                else w);
          out = api (calls w1) batch;
          w2 = perform (Post batch) w1
      in case out of
           Response code text vs \<Rightarrow>
             if code = 400 then
               (if str_contains ''max allowed tokens'' (lower text)
                then (Raise (ValueError (''Token limit exceeded: '' @ text)), w2)
                else (Continue, w2))
             else if code = 429 then (Continue, perform (Sleep 60000) w2)
             else if code = 503 then (Continue, w2)
             else if code \<noteq> 200 then (Continue, w2)
             else (Return vs, w2)
         | Timeout \<Rightarrow> (Continue, w2)
         | ConnectionError \<Rightarrow> (Continue, w2)
         | RaisedValueError msg \<Rightarrow> (Raise (ValueError msg), w2)
         | RaisedOther msg \<Rightarrow> (Continue, w2))"

fun attempts :: "'v api \<Rightarrow> string list \<Rightarrow> string \<Rightarrow> nat list \<Rightarrow> 'v world \<Rightarrow> (exn + 'v list) option \<times> 'v world" where
  "attempts api batch bid [] w = (None, w)"
| "attempts api batch bid (retry # rest) w =
     (case attempt api batch bid retry w of
        (Continue, w') \<Rightarrow> attempts api batch bid rest w'
      | (Return vs, w') \<Rightarrow> (Some (Inr vs), w')
      | (Raise e, w') \<Rightarrow> (Some (Inl e), w'))"

definition embed_batch_with_retry :: "'v api \<Rightarrow> string list \<Rightarrow> string \<Rightarrow> nat \<Rightarrow> 'v world \<Rightarrow> (exn + 'v list) \<times> 'v world" where
  "embed_batch_with_retry api batch bid max_retries w =
     (case attempts api batch bid [0..<max_retries] w of
        (Some r, w') \<Rightarrow> (r, w')
      | (None, w') \<Rightarrow>
          (let error_msg = ''Failed after '' @ dec max_retries @ '' retries''
           in (Inl (Exception error_msg), perform (MarkFailed bid error_msg) w')))"

section \<open>The partition loop\<close>

text \<open>
  \<open>embed_dataset_robust\<close>. The loop variables are \<open>embeddings\<close>, \<open>current_index\<close>
  and \<open>batch_size\<close>; sizes and offsets are natural numbers. \<open>loop_body\<close> is one
  iteration of \<open>while current_index < len(texts)\<close>; an exception that leaves the
  function is \<open>Inl\<close>.
\<close>

record 'v vars =
  embeddings :: "'v list"
  current_index :: nat
  batch_size :: nat

definition make_batch_id :: "string \<Rightarrow> string \<Rightarrow> nat \<Rightarrow> string" where
  "make_batch_id lang split batch_start =
     lang @ ''_'' @ split @ ''_batch_'' @ zero_pad 6 (dec batch_start)"

definition batch_end_of :: "string list \<Rightarrow> 'v vars \<Rightarrow> nat" where
  "batch_end_of texts vs = min (current_index vs + batch_size vs) (length texts)"

definition batch_of :: "string list \<Rightarrow> 'v vars \<Rightarrow> string list" where
  "batch_of texts vs =
     take (batch_end_of texts vs - current_index vs) (drop (current_index vs) texts)"

text \<open>The handler \<open>except ValueError as e\<close> of the loop body.\<close>

definition on_value_error :: "string list \<Rightarrow> string \<Rightarrow> string \<Rightarrow> 'v vars \<Rightarrow> 'v world \<Rightarrow> (exn + 'v vars) \<times> 'v world" where
  "on_value_error texts bid msg vs w =
     (if str_contains ''Token limit exceeded'' msg then
        (let bs = batch_size vs div 2
         in if bs < 4
            then (Inr (vs\<lparr>current_index := batch_end_of texts vs, batch_size := bs\<rparr>),
                  perform (MarkFailed bid ''Batch size reduction failed'') w)
            else (Inr (vs\<lparr>batch_size := bs\<rparr>), w))
      else (Inl (ValueError msg), w))"

definition loop_body :: "'v api \<Rightarrow> string list \<Rightarrow> string \<Rightarrow> string \<Rightarrow> 'v vars \<Rightarrow> 'v world \<Rightarrow> (exn + 'v vars) \<times> 'v world" where
  "loop_body api texts lang split vs w =
     (let batch_start = current_index vs;
          batch_end = batch_end_of texts vs;
          batch = batch_of texts vs;
          bid = make_batch_id lang split batch_start
      in if is_completed bid (table w)
         then (Inr (vs\<lparr>current_index := batch_end\<rparr>), w)
         else
           (let w1 = perform (MarkInProgress bid lang split batch_start (batch_size vs)) w
            in case embed_batch_with_retry api batch bid 5 w1 of
                 (Inr batch_embeddings, w2) \<Rightarrow>
                   if length batch_embeddings \<noteq> length batch
                   then on_value_error texts bid
                          (''Expected '' @ dec (length batch) @ '' embeddings, got '' @
                           dec (length batch_embeddings)) vs w2
                   else
                     (let embs = embeddings vs @ batch_embeddings;
                          w3 = perform (MarkCompleted bid) w2;
                          w4 = perform (Save embs) w3;
                          w5 = perform (Sleep 600) w4
                      in (Inr (vs\<lparr>embeddings := embs, current_index := batch_end\<rparr>), w5))
               | (Inl (ValueError msg), w2) \<Rightarrow> on_value_error texts bid msg vs w2
               | (Inl (Exception msg), w2) \<Rightarrow>
                   (Inr (vs\<lparr>current_index := batch_end\<rparr>), perform (MarkFailed bid msg) w2)))"

text \<open>
  The \<open>while\<close> loop, with fuel: \<open>None\<close> means that the fuel has run out with the
  loop condition still true.
\<close>

fun while_loop :: "nat \<Rightarrow> 'v api \<Rightarrow> string list \<Rightarrow> string \<Rightarrow> string \<Rightarrow> 'v vars \<Rightarrow> 'v world \<Rightarrow> ((exn + 'v vars) \<times> 'v world) option" where
  "while_loop fuel api texts lang split vs w =
     (if current_index vs < length texts then
        (case fuel of
           0 \<Rightarrow> None
         | Suc fuel' \<Rightarrow>
             (case loop_body api texts lang split vs w of
                (Inl e, w') \<Rightarrow> Some (Inl e, w')
              | (Inr vs', w') \<Rightarrow> while_loop fuel' api texts lang split vs' w'))
      else Some (Inr vs, w))"

declare while_loop.simps [simp del]

text \<open>
  The first \<open>k\<close> iterations of the loop (fewer when the loop ends or raises before).
\<close>

fun iterations :: "nat \<Rightarrow> 'v api \<Rightarrow> string list \<Rightarrow> string \<Rightarrow> string \<Rightarrow> 'v vars \<Rightarrow> 'v world \<Rightarrow> (exn + 'v vars) \<times> 'v world" where
  "iterations 0 api texts lang split vs w = (Inr vs, w)"
| "iterations (Suc k) api texts lang split vs w =
     (if current_index vs < length texts then
        (case loop_body api texts lang split vs w of
           (Inl e, w') \<Rightarrow> (Inl e, w')
         | (Inr vs', w') \<Rightarrow> iterations k api texts lang split vs' w')
      else (Inr vs, w))"

text \<open>
  The whole function. Both \<open>len(embeddings) // initial_batch_size\<close> and the
  computation of \<open>total_batches\<close> divide by the initial batch size, so a zero raises
  \<open>ZeroDivisionError\<close> before the loop. The result is \<open>len(embeddings)\<close>.
\<close>

datatype failure = ZeroDivisionError | Propagated exn

definition embed_dataset_robust :: "nat \<Rightarrow> 'v api \<Rightarrow> item list \<Rightarrow> string \<Rightarrow> string \<Rightarrow> nat \<Rightarrow> 'v world \<Rightarrow> ((failure + nat) \<times> 'v world) option" where
  "embed_dataset_robust fuel api dataset lang split initial_batch_size w =
     (let texts = map prepare_text dataset;
          embeddings0 = (case output_file w of None \<Rightarrow> [] | Some existing \<Rightarrow> existing)
      in if initial_batch_size = 0 then Some (Inl ZeroDivisionError, w)
         else
           (case while_loop fuel api texts lang split
                   \<lparr>embeddings = embeddings0, current_index = length embeddings0,
                    batch_size = initial_batch_size\<rparr> w of
              None \<Rightarrow> None
            | Some (Inl e, w') \<Rightarrow> Some (Inl (Propagated e), w')
            | Some (Inr vs, w') \<Rightarrow>
                Some (Inr (length (embeddings vs)), perform (Save (embeddings vs)) w')))"

section \<open>The shared rate limiter\<close>

text \<open>
  \<open>rate_limited_sleep\<close> of \<open>re_embed_codesearchnet_parallel.py\<close>, one call at a
  time. Time is a real number of seconds read from one wall clock \<open>now\<close>;
  floating-point rounding is not modelled. \<open>d1\<close> is the time that passes before the
  first \<open>time.time()\<close>, \<open>d2\<close> the time that passes between the end of the requested
  sleep (or the first reading, when there is no sleep) and the second \<open>time.time()\<close>:
  \<open>time.sleep\<close> suspends for at least the time asked. Each access to the shared value
  is logged with the state of the lock at that moment. A call that finds the lock held
  would block: \<open>None\<close>.
\<close>

datatype shared_access = Read_last | Write_last real




fun granted :: "(shared_access \<times> bool) list \<Rightarrow> real list" where
  "granted [] = []"
| "granted ((Read_last, h) # xs) = granted xs"
| "granted ((Write_last t, h) # xs) = t # granted xs"


section \<open>Notions used in the statements\<close>

text \<open>
  \<open>retryable\<close> holds of the outcomes after which \<open>attempt\<close> ends in
  \<open>continue\<close>; \<open>is_429\<close> of the responses with status 429.
  \<open>attempt_events\<close> lists the effects of one attempt whose request is the \<open>c\<close>-th
  of the run. \<open>row_status_msg\<close> reads the status and the error message of a row.
  \<open>undec\<close> reads a decimal numeral back; it serves to show that distinct offsets get
  distinct batch ids.
\<close>

fun retryable :: "'v outcome \<Rightarrow> bool" where
  "retryable (Response code text vs) =
     (code \<noteq> 200 \<and> \<not> (code = 400 \<and> str_contains ''max allowed tokens'' (lower text)))"
| "retryable Timeout = True"
| "retryable ConnectionError = True"
| "retryable (RaisedValueError msg) = False"
| "retryable (RaisedOther msg) = True"

fun is_429 :: "'v outcome \<Rightarrow> bool" where
  "is_429 (Response code text vs) = (code = 429)"
| "is_429 other = False"

definition attempt_events :: "'v api \<Rightarrow> string list \<Rightarrow> string \<Rightarrow> nat \<Rightarrow> nat \<Rightarrow> 'v event list" where
  "attempt_events api batch bid retry c =
     (if retry > 0 then [IncrementRetry bid, Sleep (backoff_ms retry)] else []) @
     [Post batch] @
     (if is_429 (api c batch) then [Sleep 60000] else [])"

definition row_status_msg :: "string \<Rightarrow> table \<Rightarrow> (status \<times> string option) option" where
  "row_status_msg bid tbl = map_option (\<lambda>r. (status r, error_message r)) (lookup_row bid tbl)"



section \<open>Inputs for concrete runs\<close>

text \<open>
  Small inputs on which runs are evaluated. The stand-in endpoints answer, where they
  answer at all, with the length of each text as its vector.
\<close>

definition fresh_world :: "nat world" where
  "fresh_world = \<lparr>table = [], output_file = None, calls = 0, trace = []\<rparr>"

definition mismatched_world :: "nat world" where
  "mismatched_world = \<lparr>table = [], output_file = Some [7], calls = 0, trace = []\<rparr>"

definition one_item :: "item list" where
  "one_item = [\<lparr>func_documentation_string = Some ''d'', func_code_string = None\<rparr>]"

definition two_items :: "item list" where
  "two_items = [\<lparr>func_documentation_string = Some ''d'', func_code_string = None\<rparr>,
                \<lparr>func_documentation_string = None, func_code_string = Some ''cc''\<rparr>]"

definition start_vars :: "nat vars" where
  "start_vars = \<lparr>embeddings = [], current_index = 0, batch_size = 32\<rparr>"

definition retried_row :: batch_row where
  "retried_row = \<lparr>batch_id = ''b'', lang_name = ''go'', split_name = ''train'', batch_index = 0,
                   status = In_progress, retry_count = 2, error_message = None, batch_size_col = 32\<rparr>"

definition length_api :: "nat api" where
  "length_api k batch = Response 200 [] (map length batch)"

definition short_api :: "nat api" where
  "short_api k batch = Response 200 [] []"


definition token_limit_api :: "nat api" where
  "token_limit_api k batch = Response 400 ''Request exceeds the Max Allowed Tokens per batch'' []"

definition rate_limited_api :: "nat api" where
  "rate_limited_api k batch = Response 429 [] []"

definition crash_prefix :: "nat event list" where
  "crash_prefix = [MarkInProgress ''go_train_batch_000000'' ''go'' ''train'' 0 32,
                   Post [[CHR ''d'', CHR 0x0A, CHR 0x0A]],
                   MarkCompleted ''go_train_batch_000000'']"

section \<open>Lemmas: the checkpoint table\<close>

lemma find_map_same:
  "(\<And>x. P (f x) = P x) \<Longrightarrow> find P (map f xs) = map_option f (find P xs)"
  by (induction xs) auto

lemma find_filter_weaker:
  "(\<And>x. P x \<Longrightarrow> Q x) \<Longrightarrow> find P (filter Q xs) = find P xs"
  by (induction xs) auto

lemma find_append_last:
  "find P (xs @ [y]) = (case find P xs of Some x \<Rightarrow> Some x | None \<Rightarrow> if P y then Some y else None)"
  by (induction xs) auto

lemma find_filter_neg: "find P (filter (\<lambda>x. \<not> P x) xs) = None"
  by (induction xs) auto

lemma lookup_mark_in_progress:
  "lookup_row b (mark_in_progress bid lang split idx bs tbl) =
     (if b = bid
      then Some \<lparr>batch_id = bid, lang_name = lang, split_name = split, batch_index = idx,
                 status = In_progress, retry_count = 0, error_message = None, batch_size_col = bs\<rparr>
      else lookup_row b tbl)"
proof (cases "b = bid")
  case True
  then show ?thesis
    by (simp add: lookup_row_def mark_in_progress_def find_append_last find_filter_neg)
next
  case False
  have "find (\<lambda>r. batch_id r = b) (filter (\<lambda>r. batch_id r \<noteq> bid) tbl) = find (\<lambda>r. batch_id r = b) tbl"
    using False by (intro find_filter_weaker) auto
  with False show ?thesis
    by (auto simp add: lookup_row_def mark_in_progress_def find_append_last split: option.splits)
qed

lemma lookup_increment_retry:
  "lookup_row b (increment_retry bid tbl) =
     map_option (\<lambda>r. if batch_id r = bid then r\<lparr>retry_count := retry_count r + 1\<rparr> else r) (lookup_row b tbl)"
  unfolding lookup_row_def increment_retry_def
  by (rule find_map_same) simp

lemma lookup_mark_completed:
  "lookup_row b (mark_completed bid tbl) =
     map_option (\<lambda>r. if batch_id r = bid then r\<lparr>status := Completed\<rparr> else r) (lookup_row b tbl)"
  unfolding lookup_row_def mark_completed_def
  by (rule find_map_same) simp

lemma lookup_mark_failed:
  "lookup_row b (mark_failed bid msg tbl) =
     map_option (\<lambda>r. if batch_id r = bid then r\<lparr>status := Failed, error_message := Some msg\<rparr> else r) (lookup_row b tbl)"
  unfolding lookup_row_def mark_failed_def
  by (rule find_map_same) simp

lemma lookup_row_batch_id: "lookup_row b tbl = Some r \<Longrightarrow> batch_id r = b"
  unfolding lookup_row_def by (induction tbl) (auto split: if_splits)

lemma rsm_mark_in_progress:
  "row_status_msg b (mark_in_progress bid lang split idx bs tbl) =
     (if b = bid then Some (In_progress, None) else row_status_msg b tbl)"
  by (simp add: row_status_msg_def lookup_mark_in_progress)

lemma rsm_increment_retry:
  "row_status_msg b (increment_retry bid tbl) = row_status_msg b tbl"
  by (cases "lookup_row b tbl") (simp_all add: row_status_msg_def lookup_increment_retry)


lemma rsm_mark_failed:
  "row_status_msg b (mark_failed bid msg tbl) =
     (if b = bid then map_option (\<lambda>p. (Failed, Some msg)) (row_status_msg b tbl)
      else row_status_msg b tbl)"
  by (cases "lookup_row b tbl")
     (auto simp add: row_status_msg_def lookup_mark_failed dest: lookup_row_batch_id)


section \<open>Lemmas: effects and attempts\<close>

lemma replay_append: "replay (xs @ ys) w = replay ys (replay xs w)"
  by (induction xs arbitrary: w) auto

lemma trace_replay: "trace (replay evs w) = trace w @ evs"
  by (induction evs arbitrary: w) (auto simp add: perform_def)

lemma perform_fields:
  "trace (perform ev w) = trace w @ [ev]"
  "calls (perform ev w) = (case ev of Post b \<Rightarrow> calls w + 1 | _ \<Rightarrow> calls w)"
  "output_file (perform ev w) = (case ev of Save arr \<Rightarrow> Some arr | _ \<Rightarrow> output_file w)"
  by (cases ev; simp add: perform_def)+

lemma perform_table:
  "table (perform (MarkInProgress bid lang split idx bs) w) = mark_in_progress bid lang split idx bs (table w)"
  "table (perform (MarkCompleted bid) w) = mark_completed bid (table w)"
  "table (perform (MarkFailed bid msg) w) = mark_failed bid msg (table w)"
  "table (perform (IncrementRetry bid) w) = increment_retry bid (table w)"
  "table (perform (Sleep ms) w) = table w"
  "table (perform (Post batch) w) = table w"
  "table (perform (Save arr) w) = table w"
  by (simp_all add: perform_def)

lemma attempt_world:
  "snd (attempt api batch bid retry w) = replay (attempt_events api batch bid retry (calls w)) w"
  by (cases "api (calls w) batch")
     (simp_all add: attempt_def attempt_events_def Let_def perform_fields)

lemma attempt_world_fields:
  "calls (snd (attempt api batch bid retry w)) = calls w + 1"
  "output_file (snd (attempt api batch bid retry w)) = output_file w"
  "table (snd (attempt api batch bid retry w)) =
     (if retry > 0 then increment_retry bid (table w) else table w)"
  by (simp_all add: attempt_world attempt_events_def replay_append perform_fields perform_table)

lemma attempt_retryable:
  "retryable (api (calls w) batch) \<Longrightarrow> fst (attempt api batch bid retry w) = Continue"
  by (cases "api (calls w) batch")
     (auto simp add: attempt_def Let_def perform_fields)



lemma attempts_retryable_prefix:
  "j \<le> length rs \<Longrightarrow> (\<forall>k<j. retryable (api (calls w + k) batch)) \<Longrightarrow>
     \<exists>w'. attempts api batch bid rs w = attempts api batch bid (drop j rs) w'
        \<and> calls w' = calls w + j
        \<and> output_file w' = output_file w
        \<and> (\<forall>b. row_status_msg b (table w') = row_status_msg b (table w))"
proof (induction j arbitrary: rs w)
  case 0
  show ?case by (rule exI [of _ w]) simp
next
  case (Suc j)
  then obtain r rest where rs: "rs = r # rest" by (cases rs) auto
  have "retryable (api (calls w) batch)" using Suc.prems(2) by force
  then have "fst (attempt api batch bid r w) = Continue" by (rule attempt_retryable)
  then obtain w1 where step: "attempt api batch bid r w = (Continue, w1)"
    by (cases "attempt api batch bid r w") simp
  then have w1_def: "w1 = snd (attempt api batch bid r w)" by simp
  have c1: "calls w1 = calls w + 1" unfolding w1_def by (rule attempt_world_fields)
  have o1: "output_file w1 = output_file w" unfolding w1_def by (rule attempt_world_fields)
  have t1: "\<And>b. row_status_msg b (table w1) = row_status_msg b (table w)"
    unfolding w1_def by (simp add: attempt_world_fields rsm_increment_retry)
  have "\<forall>k<j. retryable (api (calls w1 + k) batch)"
  proof (intro allI impI)
    fix k assume "k < j"
    then have "retryable (api (calls w + Suc k) batch)" using Suc.prems(2) by blast
    then show "retryable (api (calls w1 + k) batch)" by (simp add: c1)
  qed
  moreover have "j \<le> length rest" using Suc.prems(1) rs by simp
  ultimately obtain w' where w': "attempts api batch bid rest w1 = attempts api batch bid (drop j rest) w'"
      "calls w' = calls w1 + j" "output_file w' = output_file w1"
      "\<forall>b. row_status_msg b (table w') = row_status_msg b (table w1)"
    using Suc.IH [of rest w1] by blast
  have "attempts api batch bid rs w = attempts api batch bid (drop (Suc j) rs) w'"
    using rs step w'(1) by simp
  moreover have "calls w' = calls w + Suc j" using w'(2) c1 by simp
  moreover have "output_file w' = output_file w" using w'(3) o1 by simp
  moreover have "\<forall>b. row_status_msg b (table w') = row_status_msg b (table w)"
    using w'(4) t1 by simp
  ultimately show ?case by blast
qed

lemma dec_5: "dec 5 = ''5''"
  by (simp add: dec.simps digit_char_def)

lemma embed_exhausted:
  assumes "\<forall>k<n. retryable (api (calls w + k) batch)"
  shows "\<exists>w'. embed_batch_with_retry api batch bid n w =
              (Inl (Exception (''Failed after '' @ dec n @ '' retries'')), w')
        \<and> calls w' = calls w + n
        \<and> output_file w' = output_file w
        \<and> (\<forall>b. row_status_msg b (table w') =
              (if b = bid
               then map_option (\<lambda>p. (Failed, Some (''Failed after '' @ dec n @ '' retries'')))
                      (row_status_msg b (table w))
               else row_status_msg b (table w)))"
proof -
  from attempts_retryable_prefix [of n "[0..<n]" api w batch bid] assms
  obtain w1 where w1: "attempts api batch bid [0..<n] w = attempts api batch bid [] w1"
      "calls w1 = calls w + n" "output_file w1 = output_file w"
      "\<forall>b. row_status_msg b (table w1) = row_status_msg b (table w)"
    by auto
  let ?msg = "''Failed after '' @ dec n @ '' retries''"
  have "embed_batch_with_retry api batch bid n w = (Inl (Exception ?msg), perform (MarkFailed bid ?msg) w1)"
    using w1(1) by (simp add: embed_batch_with_retry_def Let_def)
  then show ?thesis
    using w1(2,3,4) by (simp add: perform_fields perform_table rsm_mark_failed)
qed




section \<open>Lemmas: evaluating concrete runs\<close>

lemma upt_0_5: "[0..<5] = [0, 1, 2, 3, 4]"
  by (simp add: upt_conv_Cons)

lemma dec_0: "dec 0 = ''0''"
  by (simp add: dec.simps digit_char_def)

lemma dec_1: "dec 1 = ''1''"
  by (simp add: dec.simps digit_char_def)

lemma dec_Suc_0: "dec (Suc 0) = ''1''"
  using dec_1 by simp

lemma batch_id_0: "make_batch_id lang split 0 = lang @ ''_'' @ split @ ''_batch_000000''"
  by (simp add: make_batch_id_def zero_pad_def dec.simps digit_char_def eval_nat_numeral)

lemma batch_id_1: "make_batch_id lang split 1 = lang @ ''_'' @ split @ ''_batch_000001''"
  by (simp add: make_batch_id_def zero_pad_def dec.simps digit_char_def eval_nat_numeral)

lemma batch_id_Suc_0: "make_batch_id lang split (Suc 0) = lang @ ''_'' @ split @ ''_batch_000001''"
  using batch_id_1 [of lang split] by simp

lemma while_loop_done:
  "\<not> current_index vs < length texts \<Longrightarrow> while_loop fuel api texts lang split vs w = Some (Inr vs, w)"
  by (simp add: while_loop.simps)

lemma while_loop_step:
  "current_index vs < length texts \<Longrightarrow>
   while_loop (Suc fuel) api texts lang split vs w =
     (case loop_body api texts lang split vs w of
        (Inl e, w') \<Rightarrow> Some (Inl e, w')
      | (Inr vs', w') \<Rightarrow> while_loop fuel api texts lang split vs' w')"
  by (simp add: while_loop.simps)

lemmas run_simps =
  embed_dataset_robust_def prepare_text_def combined_def or_empty_def adaptive_truncation_def
  while_loop_done while_loop_step loop_body_def batch_end_of_def batch_of_def
  is_completed_def get_batch_status_def lookup_row_def perform_def
  embed_batch_with_retry_def attempt_def upt_0_5 backoff_ms_def
  mark_in_progress_def mark_completed_def mark_failed_def increment_retry_def
  on_value_error_def lower_def lower_char_def Let_def dec_5


section \<open>The order of the save and the completed mark\<close>

text \<open>
  Claim C1 asks that the array extended with a batch's vectors is saved before the
  batch's row is set to \<open>completed\<close>. The loop body calls \<open>mark_completed\<close> first
  and \<open>np.save\<close> second. On one record that the endpoint embeds at once, the effects
  of the run are \<open>crash_prefix\<close>, which ends with \<open>MarkCompleted\<close>, followed by the
  first \<open>Save\<close>. After \<open>crash_prefix\<close> the row is \<open>completed\<close> and no array has
  been saved; a run restarted in that state skips the batch, reports 0 embedded records
  and saves the empty array.
\<close>

theorem completed_marked_before_save:
  "map_option (trace \<circ> snd)
       (embed_dataset_robust (Suc 0) length_api one_item ''go'' ''train'' 32 fresh_world) =
     Some (crash_prefix @ [Save [3], Sleep 600, Save [3]])
   \<and> is_completed ''go_train_batch_000000'' (table (replay crash_prefix fresh_world))
   \<and> output_file (replay crash_prefix fresh_world) = None
   \<and> map_option fst
       (embed_dataset_robust (Suc 0) length_api one_item ''go'' ''train'' 32
          (replay crash_prefix fresh_world)) = Some (Inr 0)
   \<and> map_option (output_file \<circ> snd)
       (embed_dataset_robust (Suc 0) length_api one_item ''go'' ''train'' 32
          (replay crash_prefix fresh_world)) = Some (Some [])"
  by (simp add: run_simps one_item_def length_api_def fresh_world_def batch_id_0 crash_prefix_def)

section \<open>Order preservation\<close>












section \<open>No integrity check at startup\<close>

text \<open>
  Claim C3 fails: the function compares nothing at startup. With a saved array of length
  1 and an empty checkpoint table (no completed batch, so the sizes sum to 0), the run
  posts the batch that starts at offset 1 and returns 2.
\<close>

theorem mismatch_not_detected_counterexample:
  "output_file mismatched_world = Some [7]
   \<and> completed_size_total ''go'' ''train'' (table mismatched_world) = 0
   \<and> get_completed_count ''go'' ''train'' (table mismatched_world) = 0
   \<and> map_option fst
       (embed_dataset_robust (Suc 0) length_api two_items ''go'' ''train'' 32 mismatched_world)
     = Some (Inr 2)
   \<and> map_option (trace \<circ> snd)
       (embed_dataset_robust (Suc 0) length_api two_items ''go'' ''train'' 32 mismatched_world)
     = Some [MarkInProgress ''go_train_batch_000001'' ''go'' ''train'' 1 32,
             Post [[CHR 0x0A, CHR 0x0A, CHR ''c'', CHR ''c'']],
             MarkCompleted ''go_train_batch_000001'', Save [7, 4], Sleep 600, Save [7, 4]]"
  by (simp add: run_simps two_items_def length_api_def mismatched_world_def batch_id_Suc_0
        completed_size_total_def get_completed_count_def)

lemma attempts_calls:
  "calls w \<le> calls (snd (attempts api batch bid rs w))
   \<and> (rs \<noteq> [] \<longrightarrow> calls w < calls (snd (attempts api batch bid rs w)))"
proof (induction rs arbitrary: w)
  case Nil
  then show ?case by simp
next
  case (Cons r rs)
  obtain res w1 where a: "attempt api batch bid r w = (res, w1)" by force
  then have c1: "calls w1 = calls w + 1"
    using attempt_world_fields(1) [of api batch bid r w] by simp
  from Cons.IH [of w1] have "calls w1 \<le> calls (snd (attempts api batch bid rs w1))" by simp
  with a c1 show ?case by (cases res) simp_all
qed

lemma embed_calls:
  "embed_batch_with_retry api batch bid 5 w = (r, w') \<Longrightarrow> calls w < calls w'"
proof -
  assume e: "embed_batch_with_retry api batch bid 5 w = (r, w')"
  obtain res w1 where a: "attempts api batch bid [0..<5] w = (res, w1)" by force
  have "calls w < calls (snd (attempts api batch bid [0..<5] w))"
    using attempts_calls [of w api batch bid "[0..<5]"] by (simp add: upt_0_5)
  then have "calls w < calls w1" using a by simp
  with e a show ?thesis
    by (cases res) (auto simp add: embed_batch_with_retry_def Let_def perform_fields)
qed

lemma on_value_error_calls:
  "on_value_error texts bid msg vs w = (r, w') \<Longrightarrow> calls w' = calls w"
  by (auto simp add: on_value_error_def Let_def perform_fields split: if_splits)

lemma on_value_error_raises:
  "on_value_error texts bid msg vs w = (Inl e, w') \<Longrightarrow> e = ValueError msg"
  by (auto simp add: on_value_error_def Let_def split: if_splits)

lemma loop_body_calls:
  assumes "loop_body api texts lang split vs w = (r, w')"
  shows "calls w \<le> calls w' \<and> (\<forall>e. r = Inl e \<longrightarrow> calls w < calls w' \<and> (\<exists>msg. e = ValueError msg))"
proof (cases "is_completed (make_batch_id lang split (current_index vs)) (table w)")
  case True
  with assms show ?thesis by (auto simp add: loop_body_def Let_def)
next
  case False
  let ?bid = "make_batch_id lang split (current_index vs)"
  let ?w1 = "perform (MarkInProgress ?bid lang split (current_index vs) (batch_size vs)) w"
  obtain r2 w2 where e: "embed_batch_with_retry api (batch_of texts vs) ?bid 5 ?w1 = (r2, w2)" by force
  then have "calls ?w1 < calls w2" by (rule embed_calls)
  then have lt: "calls w < calls w2" by (simp add: perform_fields)
  show ?thesis
    using assms False e lt
    by (auto simp add: loop_body_def Let_def perform_fields
             split: sum.splits exn.splits if_splits
             dest: on_value_error_calls on_value_error_raises)
qed

lemma while_loop_error_calls:
  "while_loop fuel api texts lang split vs w = Some (Inl e, w') \<Longrightarrow>
     calls w < calls w' \<and> (\<exists>msg. e = ValueError msg)"
proof (induction fuel arbitrary: vs w)
  case 0
  then show ?case by (simp add: while_loop.simps split: if_splits)
next
  case (Suc fuel)
  show ?case
  proof (cases "current_index vs < length texts")
    case False
    with Suc.prems show ?thesis by (simp add: while_loop_done)
  next
    case True
    obtain r w1 where lb: "loop_body api texts lang split vs w = (r, w1)" by force
    note c = loop_body_calls [OF lb]
    show ?thesis
    proof (cases r)
      case (Inl e1)
      with Suc.prems True lb c show ?thesis by (simp add: while_loop_step)
    next
      case (Inr vs1)
      with Suc.prems True lb have "while_loop fuel api texts lang split vs1 w1 = Some (Inl e, w')"
        by (simp add: while_loop_step)
      from Suc.IH [OF this] c show ?thesis by simp
    qed
  qed
qed

text \<open>
  Claim C3, amended: the startup of a partition run makes no integrity check. With a
  positive initial batch size, a run that ends in an exception has issued at least one
  embedding request before, and the exception is a \<open>ValueError\<close> (raised on a
  response); no run halts before its first request.
\<close>

theorem no_startup_integrity_check:
  assumes "0 < initial_batch_size"
      and "embed_dataset_robust fuel api dataset lang split initial_batch_size w = Some (Inl f, w')"
  shows "calls w < calls w' \<and> (\<exists>msg. f = Propagated (ValueError msg))"
proof -
  let ?e0 = "case output_file w of None \<Rightarrow> [] | Some existing \<Rightarrow> existing"
  let ?vs = "\<lparr>embeddings = ?e0, current_index = length ?e0, batch_size = initial_batch_size\<rparr>"
  from assms obtain e where "while_loop fuel api (map prepare_text dataset) lang split ?vs w = Some (Inl e, w')"
      and "f = Propagated e"
    by (auto simp add: embed_dataset_robust_def Let_def split: option.splits sum.splits prod.splits)
  with while_loop_error_calls [of fuel api "map prepare_text dataset" lang split ?vs w e w']
  show ?thesis by simp
qed

theorem no_startup_integrity_check_witness:
  "(0::nat) < 32
   \<and> map_option fst
       (embed_dataset_robust (Suc 0) short_api one_item ''go'' ''train'' 32 fresh_world)
     = Some (Inl (Propagated (ValueError ''Expected 1 embeddings, got 0'')))
   \<and> calls fresh_world
       < calls (snd (the (embed_dataset_robust (Suc 0) short_api one_item ''go'' ''train'' 32 fresh_world)))"
proof -
  have h1: "(0::nat) < 32" by simp
  have h2: "embed_dataset_robust (Suc 0) short_api one_item ''go'' ''train'' 32 fresh_world =
      Some (Inl (Propagated (ValueError ''Expected 1 embeddings, got 0'')),
            replay [MarkInProgress ''go_train_batch_000000'' ''go'' ''train'' 0 32,
                    Post [[CHR ''d'', CHR 0x0A, CHR 0x0A]]] fresh_world)"
    by (simp add: run_simps one_item_def short_api_def fresh_world_def batch_id_0 dec_0 dec_Suc_0)
  from no_startup_integrity_check [OF h1 h2] h2
  show ?thesis by simp
qed

section \<open>Retries exhausted\<close>



section \<open>The token limit\<close>




section \<open>The rate limiter\<close>


lemma granted_append: "granted (xs @ ys) = granted xs @ granted ys"
  by (induction xs rule: granted.induct) auto



section \<open>Adaptive truncation\<close>

text \<open>
  Claim C7: \<open>adaptive_truncation\<close> keeps the first 15000 characters of a text longer
  than 50000, the first 20000 of a text longer than 30000, and otherwise the first 30000,
  which is the whole text; so 60000 characters become 15000, 40000 become 20000 and 10000
  stay as they are. The inline policy of \<open>re_embed_codesearchnet_full.py\<close> gives the
  same text.
\<close>

theorem adaptive_truncation_policy:
  "fst (adaptive_truncation text) =
     (if length text > 50000 then take 15000 text
      else if length text > 30000 then take 20000 text
      else take 30000 text)
   \<and> length (fst (adaptive_truncation text)) =
     (if length text > 50000 then 15000
      else if length text > 30000 then 20000
      else length text)
   \<and> (length text = 60000 \<longrightarrow> length (fst (adaptive_truncation text)) = 15000)
   \<and> (length text = 40000 \<longrightarrow> length (fst (adaptive_truncation text)) = 20000)
   \<and> (length text = 10000 \<longrightarrow> fst (adaptive_truncation text) = text)
   \<and> prepare_text_full it = prepare_text it"
  by (simp add: adaptive_truncation_def prepare_text_full_def prepare_text_def)

theorem adaptive_truncation_policy_witness:
  "length (replicate 60000 (CHR ''x'')) = 60000
   \<and> length (fst (adaptive_truncation (replicate 60000 (CHR ''x'')))) = 15000
   \<and> length (replicate 40000 (CHR ''x'')) = 40000
   \<and> length (fst (adaptive_truncation (replicate 40000 (CHR ''x'')))) = 20000
   \<and> length (replicate 10000 (CHR ''x'')) = 10000
   \<and> fst (adaptive_truncation (replicate 10000 (CHR ''x''))) = replicate 10000 (CHR ''x'')"
  using adaptive_truncation_policy [of "replicate 60000 (CHR ''x'')"]
        adaptive_truncation_policy [of "replicate 40000 (CHR ''x'')"]
        adaptive_truncation_policy [of "replicate 10000 (CHR ''x'')"]
  by simp

section \<open>The retry count\<close>

text \<open>
  Claim C8 fails: \<open>mark_in_progress\<close> replaces the row, and the new row has the default
  \<open>retry_count\<close> 0. After \<open>mark_in_progress\<close> and \<open>increment_retry\<close> the count is
  1; a second \<open>mark_in_progress\<close> of the same batch brings it back to 0.
\<close>

theorem retry_count_reset_counterexample:
  "get_batch_status ''b''
      (apply_ops [Op_mark_in_progress ''b'' ''go'' ''train'' 0 32, Op_increment_retry ''b''] [])
     = Some (In_progress, 1)
   \<and> get_batch_status ''b''
      (apply_ops [Op_mark_in_progress ''b'' ''go'' ''train'' 0 32, Op_increment_retry ''b'',
                  Op_mark_in_progress ''b'' ''go'' ''train'' 0 16] [])
     = Some (In_progress, 0)"
  by (simp add: get_batch_status_def lookup_row_def mark_in_progress_def increment_retry_def)

lemma apply_op_retry_count:
  "\<not> replaces_row b op \<Longrightarrow> lookup_row b tbl = Some r \<Longrightarrow>
     \<exists>r'. lookup_row b (apply_op op tbl) = Some r' \<and> retry_count r \<le> retry_count r'"
  by (cases op)
     (auto simp add: lookup_mark_in_progress lookup_increment_retry lookup_mark_completed lookup_mark_failed)

text \<open>
  Claim C8, amended: across any sequence of \<open>CheckpointManager\<close> operations that does
  not mark this batch in progress, the row of the batch stays and its \<open>retry_count\<close>
  never decreases; \<open>mark_in_progress\<close> of the batch sets the count to 0.
\<close>

theorem retry_count_monotone_without_replace:
  "(\<forall>op \<in> set ops. \<not> replaces_row b op) \<Longrightarrow> lookup_row b tbl = Some r \<Longrightarrow>
     (\<exists>r'. lookup_row b (apply_ops ops tbl) = Some r' \<and> retry_count r \<le> retry_count r')
     \<and> get_batch_status b (mark_in_progress b lang split idx bs tbl) = Some (In_progress, 0)"
proof (induction ops arbitrary: tbl r)
  case Nil
  then show ?case by (simp add: get_batch_status_def lookup_mark_in_progress)
next
  case (Cons op ops)
  from Cons.prems obtain r1 where r1: "lookup_row b (apply_op op tbl) = Some r1" "retry_count r \<le> retry_count r1"
    using apply_op_retry_count [of b op tbl r] by auto
  from Cons.IH [OF _ r1(1)] Cons.prems(1)
  obtain r' where "lookup_row b (apply_ops ops (apply_op op tbl)) = Some r'" "retry_count r1 \<le> retry_count r'"
    by auto
  with r1 show ?case
    by (auto simp add: get_batch_status_def lookup_mark_in_progress)
qed

theorem retry_count_monotone_without_replace_witness:
  "(\<exists>r'. lookup_row ''b''
            (apply_ops [Op_increment_retry ''b'', Op_mark_failed ''b'' ''e'',
                        Op_mark_in_progress ''c'' ''go'' ''train'' 32 32, Op_mark_completed ''b'']
               [retried_row]) = Some r'
         \<and> retry_count retried_row \<le> retry_count r')
   \<and> get_batch_status ''b'' (mark_in_progress ''b'' ''go'' ''train'' 0 16 [retried_row])
       = Some (In_progress, 0)"
proof -
  have h1: "\<forall>op \<in> set [Op_increment_retry ''b'', Op_mark_failed ''b'' ''e'',
                        Op_mark_in_progress ''c'' ''go'' ''train'' 32 32, Op_mark_completed ''b''].
              \<not> replaces_row ''b'' op"
    by simp
  have h2: "lookup_row ''b'' [retried_row] = Some retried_row"
    by (simp add: lookup_row_def retried_row_def)
  from retry_count_monotone_without_replace [OF h1 h2, of "''go''" "''train''" 0 16]
  show ?thesis by simp
qed

section \<open>The batch size never grows\<close>

lemma on_value_error_batch_size:
  "on_value_error texts bid msg vs w = (Inr vs', w') \<Longrightarrow>
     batch_size vs' = batch_size vs div 2"
  by (auto simp add: on_value_error_def Let_def split: if_splits)

lemma loop_body_batch_size:
  "loop_body api texts lang split vs w = (Inr vs', w') \<Longrightarrow>
     batch_size vs' = batch_size vs \<or> batch_size vs' = batch_size vs div 2"
  by (auto simp add: loop_body_def Let_def
           split: if_splits prod.splits sum.splits exn.splits
           dest: on_value_error_batch_size)

lemma loop_body_batch_size_le:
  "loop_body api texts lang split vs w = (Inr vs', w') \<Longrightarrow> batch_size vs' \<le> batch_size vs"
  using loop_body_batch_size [of api texts lang split vs w vs' w'] by auto

lemma iterations_batch_size:
  "iterations k api texts lang split vs w = (Inr vs', w') \<Longrightarrow> batch_size vs' \<le> batch_size vs"
proof (induction k arbitrary: vs w)
  case 0
  then show ?case by simp
next
  case (Suc k)
  show ?case
  proof (cases "current_index vs < length texts")
    case False
    with Suc.prems show ?thesis by simp
  next
    case True
    obtain r w1 where lb: "loop_body api texts lang split vs w = (r, w1)" by force
    show ?thesis
    proof (cases r)
      case (Inl e)
      with Suc.prems True lb show ?thesis by simp
    next
      case (Inr vs1)
      with Suc.prems True lb have "iterations k api texts lang split vs1 w1 = (Inr vs', w')" by simp
      then have "batch_size vs' \<le> batch_size vs1" by (rule Suc.IH)
      moreover have "batch_size vs1 \<le> batch_size vs"
        using lb Inr by (intro loop_body_batch_size_le) simp
      ultimately show ?thesis by simp
    qed
  qed
qed

lemma while_loop_batch_size:
  "while_loop fuel api texts lang split vs w = Some (Inr vs', w') \<Longrightarrow> batch_size vs' \<le> batch_size vs"
proof (induction fuel arbitrary: vs w)
  case 0
  then show ?case by (simp add: while_loop.simps split: if_splits)
next
  case (Suc fuel)
  show ?case
  proof (cases "current_index vs < length texts")
    case False
    with Suc.prems show ?thesis by (simp add: while_loop.simps)
  next
    case True
    obtain r w1 where lb: "loop_body api texts lang split vs w = (r, w1)" by force
    show ?thesis
    proof (cases r)
      case (Inl e)
      with Suc.prems True lb show ?thesis by (simp add: while_loop.simps)
    next
      case (Inr vs1)
      with Suc.prems True lb have "while_loop fuel api texts lang split vs1 w1 = Some (Inr vs', w')"
        by (simp add: while_loop.simps)
      then have "batch_size vs' \<le> batch_size vs1" by (rule Suc.IH)
      moreover have "batch_size vs1 \<le> batch_size vs"
        using lb Inr by (intro loop_body_batch_size_le) simp
      ultimately show ?thesis by simp
    qed
  qed
qed

text \<open>
  Claim C9: along the iterations of one partition loop the batch size never grows. From
  any state reached after \<open>j\<close> iterations, every later state, and the final state of the
  loop, has a batch size no larger; one iteration either keeps the size or halves it.
\<close>

theorem batch_size_never_restored:
  assumes "iterations j api texts lang split vs w = (Inr vs1, w1)"
      and "iterations k api texts lang split vs1 w1 = (Inr vs2, w2)"
  shows "batch_size vs2 \<le> batch_size vs1 \<and> batch_size vs1 \<le> batch_size vs
       \<and> (\<forall>fuel vs3 w3. while_loop fuel api texts lang split vs1 w1 = Some (Inr vs3, w3)
             \<longrightarrow> batch_size vs3 \<le> batch_size vs1)
       \<and> (\<forall>vs' w'. loop_body api texts lang split vs1 w1 = (Inr vs', w')
             \<longrightarrow> batch_size vs' = batch_size vs1 \<or> batch_size vs' = batch_size vs1 div 2)"
proof (intro conjI allI impI)
  show "batch_size vs2 \<le> batch_size vs1" using assms(2) by (rule iterations_batch_size)
  show "batch_size vs1 \<le> batch_size vs" using assms(1) by (rule iterations_batch_size)
next
  fix fuel vs3 w3
  assume "while_loop fuel api texts lang split vs1 w1 = Some (Inr vs3, w3)"
  then show "batch_size vs3 \<le> batch_size vs1" by (rule while_loop_batch_size)
next
  fix vs' w'
  assume "loop_body api texts lang split vs1 w1 = (Inr vs', w')"
  then show "batch_size vs' = batch_size vs1 \<or> batch_size vs' = batch_size vs1 div 2"
    by (rule loop_body_batch_size)
qed

theorem batch_size_never_restored_witness:
  "\<exists>vs1 w1 vs2 w2.
      iterations 1 token_limit_api [''a''] ''go'' ''train'' start_vars fresh_world = (Inr vs1, w1)
    \<and> iterations 1 token_limit_api [''a''] ''go'' ''train'' vs1 w1 = (Inr vs2, w2)
    \<and> batch_size vs1 = 16 \<and> batch_size vs2 = 8
    \<and> batch_size vs2 \<le> batch_size vs1 \<and> batch_size vs1 \<le> batch_size start_vars"
proof -
  let ?bid = "make_batch_id ''go'' ''train'' 0"
  let ?vs1 = "start_vars\<lparr>batch_size := 16\<rparr>"
  let ?w1 = "replay [MarkInProgress ?bid ''go'' ''train'' 0 32, Post [''a'']] fresh_world"
  let ?vs2 = "start_vars\<lparr>batch_size := 8\<rparr>"
  let ?w2 = "replay [MarkInProgress ?bid ''go'' ''train'' 0 16, Post [''a'']] ?w1"
  have a: "iterations 1 token_limit_api [''a''] ''go'' ''train'' start_vars fresh_world = (Inr ?vs1, ?w1)"
    by (simp add: run_simps start_vars_def fresh_world_def token_limit_api_def)
  have b: "iterations 1 token_limit_api [''a''] ''go'' ''train'' ?vs1 ?w1 = (Inr ?vs2, ?w2)"
    by (simp add: run_simps start_vars_def fresh_world_def token_limit_api_def)
  from batch_size_never_restored [OF a b] a b
  show ?thesis by (simp add: start_vars_def)
qed

section \<open>Rate-limit responses and the retry budget\<close>

lemma is_429_retryable: "is_429 out \<Longrightarrow> retryable out"
  by (cases out) auto

lemma attempts_all_429:
  "(\<forall>k<length rs. is_429 (api (calls w + k) batch)) \<Longrightarrow>
     attempts api batch bid rs w =
       (None, replay (concat (map (\<lambda>retry.
                  (if retry > 0 then [IncrementRetry bid, Sleep (backoff_ms retry)] else []) @
                  [Post batch, Sleep 60000]) rs)) w)"
proof (induction rs arbitrary: w)
  case Nil
  then show ?case by simp
next
  case (Cons r rs)
  let ?f = "\<lambda>retry. (if retry > 0 then [IncrementRetry bid, Sleep (backoff_ms retry)] else []) @
                  [Post batch, Sleep 60000]"
  have h: "is_429 (api (calls w) batch)" using Cons.prems by force
  then have "fst (attempt api batch bid r w) = Continue"
    by (intro attempt_retryable is_429_retryable)
  then obtain w1 where step: "attempt api batch bid r w = (Continue, w1)"
    by (cases "attempt api batch bid r w") simp
  then have "w1 = snd (attempt api batch bid r w)" by simp
  then have w1: "w1 = replay (?f r) w"
    using h by (simp add: attempt_world attempt_events_def)
  have c1: "calls w1 = calls w + 1" using step attempt_world_fields(1) [of api batch bid r w] by simp
  have "\<forall>k<length rs. is_429 (api (calls w1 + k) batch)"
  proof (intro allI impI)
    fix k assume "k < length rs"
    then have "is_429 (api (calls w + Suc k) batch)" using Cons.prems by force
    then show "is_429 (api (calls w1 + k) batch)" by (simp add: c1)
  qed
  then have IH: "attempts api batch bid rs w1 = (None, replay (concat (map ?f rs)) w1)"
    by (rule Cons.IH)
  have "replay (concat (map ?f rs)) w1 = replay (concat (map ?f (r # rs))) w"
    unfolding w1 by (simp only: list.map concat.simps replay_append)
  moreover have "attempts api batch bid (r # rs) w = attempts api batch bid rs w1"
    using step by simp
  ultimately show ?case using IH by simp
qed

text \<open>
  Claim C10: in \<open>embed_batch_with_retry\<close>, when each of the \<open>max_retries\<close>
  attempts is answered 429, every request is followed by a sleep of 60 seconds before the
  next attempt (which adds its own backoff), the loop runs out after exactly
  \<open>max_retries\<close> requests, \<open>mark_failed\<close> is the last effect, and the function
  raises \<open>Exception\<close>.
\<close>

theorem rate_limit_shares_retry_budget:
  assumes "\<forall>k<max_retries. is_429 (api (calls w + k) batch)"
  shows "\<exists>w'. embed_batch_with_retry api batch bid max_retries w =
              (Inl (Exception (''Failed after '' @ dec max_retries @ '' retries'')), w')
        \<and> trace w' = trace w @
             concat (map (\<lambda>retry.
                       (if retry > 0 then [IncrementRetry bid, Sleep (backoff_ms retry)] else []) @
                       [Post batch, Sleep 60000]) [0..<max_retries]) @
             [MarkFailed bid (''Failed after '' @ dec max_retries @ '' retries'')]
        \<and> calls w' = calls w + max_retries
        \<and> row_status_msg bid (table w') =
             map_option (\<lambda>p. (Failed, Some (''Failed after '' @ dec max_retries @ '' retries'')))
               (row_status_msg bid (table w))"
proof -
  let ?msg = "''Failed after '' @ dec max_retries @ '' retries''"
  let ?evs = "concat (map (\<lambda>retry.
                       (if retry > 0 then [IncrementRetry bid, Sleep (backoff_ms retry)] else []) @
                       [Post batch, Sleep 60000]) [0..<max_retries])"
  have "attempts api batch bid [0..<max_retries] w = (None, replay ?evs w)"
    using assms by (intro attempts_all_429) simp
  then have eq: "embed_batch_with_retry api batch bid max_retries w =
                   (Inl (Exception ?msg), perform (MarkFailed bid ?msg) (replay ?evs w))"
    by (simp add: embed_batch_with_retry_def Let_def)
  have "\<forall>k<max_retries. retryable (api (calls w + k) batch)"
    using assms is_429_retryable by blast
  from embed_exhausted [of max_retries api w batch bid] this eq
  have "calls (perform (MarkFailed bid ?msg) (replay ?evs w)) = calls w + max_retries"
       "row_status_msg bid (table (perform (MarkFailed bid ?msg) (replay ?evs w))) =
          map_option (\<lambda>p. (Failed, Some ?msg)) (row_status_msg bid (table w))"
    by auto
  moreover have "trace (perform (MarkFailed bid ?msg) (replay ?evs w)) = trace w @ ?evs @ [MarkFailed bid ?msg]"
    by (simp add: perform_fields trace_replay)
  ultimately show ?thesis using eq by blast
qed

theorem rate_limit_shares_retry_budget_witness:
  "\<exists>w'. embed_batch_with_retry rate_limited_api [''a''] ''b'' 2
            (perform (MarkInProgress ''b'' ''go'' ''train'' 0 32) fresh_world) =
              (Inl (Exception ''Failed after 2 retries''), w')
        \<and> trace w' = [MarkInProgress ''b'' ''go'' ''train'' 0 32,
                       Post [''a''], Sleep 60000,
                       IncrementRetry ''b'', Sleep 10000, Post [''a''], Sleep 60000,
                       MarkFailed ''b'' ''Failed after 2 retries'']
        \<and> row_status_msg ''b'' (table w') = Some (Failed, Some ''Failed after 2 retries'')"
proof -
  have h: "\<forall>k<2. is_429 (rate_limited_api
              (calls (perform (MarkInProgress ''b'' ''go'' ''train'' 0 32) fresh_world) + k) [''a''])"
    by (simp add: rate_limited_api_def)
  have d: "dec 2 = ''2''" by (simp add: dec.simps digit_char_def)
  have u: "[0..<2] = [0, 1]" by (simp add: upt_conv_Cons)
  from rate_limit_shares_retry_budget
         [where api = rate_limited_api and max_retries = 2 and batch = "[''a'']" and bid = "''b''"
            and w = "perform (MarkInProgress ''b'' ''go'' ''train'' 0 32) fresh_world"] h
  show ?thesis
    by (auto simp add: d u backoff_ms_def perform_fields perform_table rsm_mark_in_progress
          fresh_world_def)
qed

end
